theory Spec2Isabelle
  imports Main "HOL-Library.Word"
begin

unbundle bit_operations_syntax

section \<open>go-multihash: computing the multihash of a buffer (sum.go)\<close>

text \<open>
  The file \<^verbatim>\<open>sum.go\<close> of the vendored package \<^verbatim>\<open>go-multihash\<close> holds one exported
  function, \<^verbatim>\<open>Sum(data []byte, code uint64, length int) (Multihash, error)\<close>, and
  the helpers that call the hash libraries. This theory embeds that file.

  What \<^verbatim>\<open>sum.go\<close> uses but does not declare is taken as a parameter:
  \<^item> the package-level declarations of the registry (the code constants, the function
    \<^verbatim>\<open>ValidCode\<close>, the map \<^verbatim>\<open>DefaultLengths\<close>) and the function
    \<^verbatim>\<open>Encode\<close>: the record \<open>registry\<close>;
  \<^item> the hash functions of the imported libraries: the record \<open>prims\<close>.
\<close>

subsection \<open>Data\<close>

type_synonym byte = "8 word"
type_synonym bytes = "byte list"
type_synonym code = "64 word"

text \<open>
  A Go slice has a length and a capacity. \<open>elems\<close> are the \<^verbatim>\<open>len\<close> bytes of the
  slice; \<open>spare\<close> are the bytes of its backing array between \<^verbatim>\<open>len\<close> and
  \<^verbatim>\<open>cap\<close>, which a slice expression \<^verbatim>\<open>d[0:n]\<close> with \<^verbatim>\<open>len < n <= cap\<close> makes
  visible.
\<close>

record slice =
  elems :: bytes
  spare :: bytes

text \<open>
  Every way \<^verbatim>\<open>Sum\<close> can end without a multihash. The first six are the
  \<^verbatim>\<open>error\<close> values it returns (\<^verbatim>\<open>fmt.Errorf\<close> with the number it prints,
  \<^verbatim>\<open>ErrSumNotSupported\<close>, the error of the hash's \<^verbatim>\<open>Write\<close>, an error of
  \<^verbatim>\<open>Encode\<close>); \<open>PanicSliceBounds\<close> is the run-time panic of a slice expression
  out of range, which is not a returned error. The last five are the errors of the
  identifier codec.
\<close>

datatype failure =
    ErrInvalidCode code
  | ErrNoDefaultLength code
  | ErrUnsupportedBlake2s code
  | ErrUnsupportedBlake2b code
  | ErrSumNotSupported
  | ErrPrimitive string
  | PanicSliceBounds
  | InconsistentLength
  | CodeOutOfRange
  | MalformedVarint
  | Truncated
  | TrailingData

fun returned_error :: "failure + 'a \<Rightarrow> bool" where
  "returned_error (Inl PanicSliceBounds) = False"
| "returned_error (Inl e) = True"
| "returned_error (Inr v) = False"

text \<open>
  The declarations of the package that \<^verbatim>\<open>sum.go\<close> refers to: the constants of the
  fixed codes, the bounds of the two blake2 ranges, \<^verbatim>\<open>ValidCode\<close>, the map
  \<^verbatim>\<open>DefaultLengths\<close> (a Go \<^verbatim>\<open>map[uint64]int\<close>) and \<^verbatim>\<open>Encode\<close>.
\<close>

record registry =
  SHA1 :: code
  SHA2_256 :: code
  SHA2_512 :: code
  SHA3 :: code
  KECCAK_224 :: code
  KECCAK_256 :: code
  KECCAK_384 :: code
  KECCAK_512 :: code
  DBL_SHA2_256 :: code
  MURMUR3 :: code
  BLAKE2B_MIN :: code
  BLAKE2B_MAX :: code
  BLAKE2S_MIN :: code
  BLAKE2S_MAX :: code
  ValidCode :: "code \<Rightarrow> bool"
  DefaultLengths :: "code \<rightharpoonup> int"
  Encode :: "bytes \<Rightarrow> code \<Rightarrow> failure + bytes"

text \<open>
  The hash libraries. A function that returns a Go array (\<^verbatim>\<open>[20]byte\<close>,
  \<^verbatim>\<open>[32]byte\<close>, ...) is a function to \<open>bytes\<close>; the streaming hashes
  (\<^verbatim>\<open>h := keccak.New224(); h.Write(data); h.Sum(nil)\<close>) are functions to the slice
  that \<^verbatim>\<open>h.Sum(nil)\<close> returns after \<^verbatim>\<open>data\<close> was written. \<open>sha3_512_Write\<close> is the
  error of \<^verbatim>\<open>h.Write(data)\<close> on \<^verbatim>\<open>sha3.New512()\<close>, \<open>None\<close> for \<^verbatim>\<open>nil\<close>.
\<close>

record prims =
  sha1_Sum :: "bytes \<Rightarrow> bytes"
  sha256_Sum256 :: "bytes \<Rightarrow> bytes"
  sha512_Sum512 :: "bytes \<Rightarrow> bytes"
  keccak_224 :: "bytes \<Rightarrow> slice"
  keccak_256 :: "bytes \<Rightarrow> slice"
  keccak_384 :: "bytes \<Rightarrow> slice"
  keccak_512 :: "bytes \<Rightarrow> slice"
  sha3_512_Write :: "bytes \<Rightarrow> string option"
  sha3_512_Sum :: "bytes \<Rightarrow> slice"
  blake2s_Sum256 :: "bytes \<Rightarrow> bytes"
  blake2b_Sum256 :: "bytes \<Rightarrow> bytes"
  blake2b_Sum384 :: "bytes \<Rightarrow> bytes"
  blake2b_Sum512 :: "bytes \<Rightarrow> bytes"
  murmur3_Sum32 :: "bytes \<Rightarrow> 32 word"

subsection \<open>Slice expressions\<close>

text \<open>\<^verbatim>\<open>a[0:n]\<close> on an array \<open>a\<close>: the capacity is the length of the array.\<close>

definition array_slice :: "bytes \<Rightarrow> nat \<Rightarrow> slice" where
  "array_slice a n = \<lparr>elems = take n a, spare = drop n a\<rparr>"

text \<open>\<^verbatim>\<open>out[:]\<close> on an array \<open>out\<close>.\<close>

definition whole_slice :: "bytes \<Rightarrow> slice" where
  "whole_slice out = \<lparr>elems = out, spare = []\<rparr>"

definition cap :: "slice \<Rightarrow> nat" where
  "cap d = length (elems d) + length (spare d)"

text \<open>
  \<^verbatim>\<open>d[0:length]\<close> on a slice \<open>d\<close> with an \<^verbatim>\<open>int\<close> bound: Go panics unless
  \<^verbatim>\<open>0 <= length <= cap(d)\<close>; the result has the first \<open>length\<close> bytes of the backing
  array.
\<close>

definition reslice :: "slice \<Rightarrow> int \<Rightarrow> failure + bytes" where
  "reslice d n =
     (if n < 0 \<or> int (cap d) < n then Inl PanicSliceBounds
      else Inr (take (nat n) (elems d @ spare d)))"

subsection \<open>The helpers of sum.go\<close>

definition isBlake2s :: "registry \<Rightarrow> code \<Rightarrow> bool" where
  "isBlake2s R c \<longleftrightarrow> BLAKE2S_MIN R \<le> c \<and> c \<le> BLAKE2S_MAX R"

definition isBlake2b :: "registry \<Rightarrow> code \<Rightarrow> bool" where
  "isBlake2b R c \<longleftrightarrow> BLAKE2B_MIN R \<le> c \<and> c \<le> BLAKE2B_MAX R"

definition sumSHA1 :: "prims \<Rightarrow> bytes \<Rightarrow> slice" where
  "sumSHA1 P data = array_slice (sha1_Sum P data) 20"

definition sumSHA256 :: "prims \<Rightarrow> bytes \<Rightarrow> slice" where
  "sumSHA256 P data = array_slice (sha256_Sum256 P data) 32"

definition sumSHA512 :: "prims \<Rightarrow> bytes \<Rightarrow> slice" where
  "sumSHA512 P data = array_slice (sha512_Sum512 P data) 64"

definition sumKeccak224 :: "prims \<Rightarrow> bytes \<Rightarrow> slice" where
  "sumKeccak224 P data = keccak_224 P data"

definition sumKeccak256 :: "prims \<Rightarrow> bytes \<Rightarrow> slice" where
  "sumKeccak256 P data = keccak_256 P data"

definition sumKeccak384 :: "prims \<Rightarrow> bytes \<Rightarrow> slice" where
  "sumKeccak384 P data = keccak_384 P data"

definition sumKeccak512 :: "prims \<Rightarrow> bytes \<Rightarrow> slice" where
  "sumKeccak512 P data = keccak_512 P data"

definition sumSHA3 :: "prims \<Rightarrow> bytes \<Rightarrow> failure + slice" where
  "sumSHA3 P data =
     (case sha3_512_Write P data of
        Some err \<Rightarrow> Inl (ErrPrimitive err)
      | None \<Rightarrow> Inr (sha3_512_Sum P data))"

text \<open>
  The loop of \<^verbatim>\<open>sumMURMUR3\<close> over the indices of \<^verbatim>\<open>bytes\<close>: each round stores
  \<^verbatim>\<open>byte(number & 0xff)\<close> and shifts \<^verbatim>\<open>number\<close> right by 8. \<open>k\<close> is the number of
  indices left.
\<close>

fun murmur_loop :: "nat \<Rightarrow> 32 word \<Rightarrow> bytes" where
  "murmur_loop 0 number = []"
| "murmur_loop (Suc k) number =
     ucast (number AND 0xff) # murmur_loop k (drop_bit 8 number)"

text \<open>\<^verbatim>\<open>make([]byte, 4)\<close> has length and capacity 4; the error is always \<^verbatim>\<open>nil\<close>.\<close>

definition sumMURMUR3 :: "prims \<Rightarrow> bytes \<Rightarrow> failure + slice" where
  "sumMURMUR3 P data = Inr \<lparr>elems = murmur_loop 4 (murmur3_Sum32 P data), spare = []\<rparr>"

subsection \<open>Sum\<close>

text \<open>Lines 30 to 36: a negative \<^verbatim>\<open>length\<close> is replaced by the entry of the table.\<close>

definition resolve_length :: "registry \<Rightarrow> code \<Rightarrow> int \<Rightarrow> failure + int" where
  "resolve_length R c len =
     (if len < 0 then
        (case DefaultLengths R c of
           None \<Rightarrow> Inl (ErrNoDefaultLength c)
         | Some n \<Rightarrow> Inr n)
      else Inr len)"

text \<open>
  Lines 38 to 92: the outer \<^verbatim>\<open>switch\<close> with its cases in the order of the source,
  then \<^verbatim>\<open>if err != nil\<close>. \<open>olen\<close> is computed in \<^verbatim>\<open>uint64\<close>.
\<close>

definition dispatch :: "registry \<Rightarrow> prims \<Rightarrow> bytes \<Rightarrow> code \<Rightarrow> failure + slice" where
  "dispatch R P data c =
     (if isBlake2s R c then
        (let olen = c - BLAKE2S_MIN R + 1 in
         if olen = 32 then Inr (whole_slice (blake2s_Sum256 P data))
         else Inl (ErrUnsupportedBlake2s olen))
      else if isBlake2b R c then
        (let olen = c - BLAKE2B_MIN R + 1 in
         if olen = 32 then Inr (whole_slice (blake2b_Sum256 P data))
         else if olen = 48 then Inr (whole_slice (blake2b_Sum384 P data))
         else if olen = 64 then Inr (whole_slice (blake2b_Sum512 P data))
         else Inl (ErrUnsupportedBlake2b olen))
      else if c = SHA1 R then Inr (sumSHA1 P data)
      else if c = SHA2_256 R then Inr (sumSHA256 P data)
      else if c = SHA2_512 R then Inr (sumSHA512 P data)
      else if c = KECCAK_224 R then Inr (sumKeccak224 P data)
      else if c = KECCAK_256 R then Inr (sumKeccak256 P data)
      else if c = KECCAK_384 R then Inr (sumKeccak384 P data)
      else if c = KECCAK_512 R then Inr (sumKeccak512 P data)
      else if c = SHA3 R then sumSHA3 P data
      else if c = DBL_SHA2_256 R then Inr (sumSHA256 P (elems (sumSHA256 P data)))
      else if c = MURMUR3 R then sumMURMUR3 P data
      else Inl ErrSumNotSupported)"

text \<open>
  \<^verbatim>\<open>Sum\<close> up to the argument of its last call: the digest \<^verbatim>\<open>d[0:length]\<close> that is
  handed to \<^verbatim>\<open>Encode\<close>, or the failure that ends \<^verbatim>\<open>Sum\<close> before.
\<close>

definition Sum_digest :: "registry \<Rightarrow> prims \<Rightarrow> bytes \<Rightarrow> code \<Rightarrow> int \<Rightarrow> failure + bytes" where
  "Sum_digest R P data c len =
     (if \<not> ValidCode R c then Inl (ErrInvalidCode c)
      else case resolve_length R c len of
        Inl e \<Rightarrow> Inl e
      | Inr n \<Rightarrow>
          (case dispatch R P data c of
             Inl e \<Rightarrow> Inl e
           | Inr d \<Rightarrow> reslice d n))"

text \<open>\<^verbatim>\<open>Sum\<close>: line 93 returns \<^verbatim>\<open>Encode(d[0:length], code)\<close>.\<close>

definition Sum :: "registry \<Rightarrow> prims \<Rightarrow> bytes \<Rightarrow> code \<Rightarrow> int \<Rightarrow> failure + bytes" where
  "Sum R P data c len =
     (case Sum_digest R P data c len of
        Inl e \<Rightarrow> Inl e
      | Inr d \<Rightarrow> Encode R d c)"

subsection \<open>The identifier codec\<close>

text \<open>
  Modelled from the spec: the variable-length unsigned integer of the wire format. The
  package's \<^verbatim>\<open>Encode\<close> and \<^verbatim>\<open>Decode\<close> are not in \<^verbatim>\<open>sum.go\<close>. The spec, section
  6: "an unsigned, little-endian, base-128 continuation encoding (each byte's low 7 bits
  are data, high bit set means more bytes follow)".
\<close>

fun put_uvarint :: "nat \<Rightarrow> bytes" where
  "put_uvarint n =
     (if n < 128 then [of_nat n]
      else of_nat (128 + n mod 128) # put_uvarint (n div 128))"

text \<open>
  Modelled from the spec: reading one variable-length integer off the front of a byte
  sequence; \<open>None\<close> when the sequence ends while the continuation bit is still set.
\<close>

fun get_uvarint :: "bytes \<Rightarrow> (nat \<times> bytes) option" where
  "get_uvarint [] = None"
| "get_uvarint (b # bs) =
     (if unat b < 128 then Some (unat b, bs)
      else (case get_uvarint bs of
              None \<Rightarrow> None
            | Some (v, rest) \<Rightarrow> Some (unat b - 128 + 128 * v, rest)))"

text \<open>
  Modelled from the spec: \<^verbatim>\<open>Encode(digestBytes, code, length)\<close> of section 4.3, which
  "writes code as a variable-length unsigned integer, then length as a variable-length
  unsigned integer, then exactly length digest bytes"; a digest whose size is not
  \<open>length\<close> is an \<open>InconsistentLength\<close> error, and the code must be "within the
  representable integer range" (an unsigned 64-bit integer).
\<close>

definition Encode_spec :: "bytes \<Rightarrow> nat \<Rightarrow> nat \<Rightarrow> failure + bytes" where
  "Encode_spec digest c len =
     (if length digest \<noteq> len then Inl InconsistentLength
      else if 2 ^ 64 \<le> c then Inl CodeOutOfRange
      else Inr (put_uvarint c @ put_uvarint len @ digest))"

text \<open>
  Modelled from the spec: \<^verbatim>\<open>Decode(bytes)\<close> of section 4.3, which "parses the
  variable-length code, then the variable-length length, then consumes exactly length
  following bytes", failing with \<open>Truncated\<close> "if fewer bytes remain than length
  declares", with \<open>TrailingData\<close> "if bytes remain after consuming length digest
  bytes", and with \<open>MalformedVarint\<close> "if the variable-length integer encoding itself is
  invalid".
\<close>

definition Decode_spec :: "bytes \<Rightarrow> failure + (nat \<times> nat \<times> bytes)" where
  "Decode_spec bs =
     (case get_uvarint bs of
        None \<Rightarrow> Inl MalformedVarint
      | Some (c, r1) \<Rightarrow>
          (case get_uvarint r1 of
             None \<Rightarrow> Inl MalformedVarint
           | Some (len, r2) \<Rightarrow>
               if length r2 < len then Inl Truncated
               else if len < length r2 then Inl TrailingData
               else Inr (c, len, r2)))"

subsection \<open>What the theorems ask of the parameters\<close>

text \<open>
  The output sizes of the hash libraries: the array types of
  \<^verbatim>\<open>sha1.Sum\<close>, \<^verbatim>\<open>sha256.Sum256\<close>, \<^verbatim>\<open>sha512.Sum512\<close>, \<^verbatim>\<open>blake2s.Sum256\<close>,
  \<^verbatim>\<open>blake2b.Sum256\<close>, \<^verbatim>\<open>blake2b.Sum384\<close> and \<^verbatim>\<open>blake2b.Sum512\<close>, the digest sizes
  of the four keccak hashes and of sha3-512, and that the \<^verbatim>\<open>Write\<close> of a hash returns
  no error.
\<close>

definition prims_ok :: "prims \<Rightarrow> bool" where
  "prims_ok P \<longleftrightarrow>
     (\<forall>data.
        length (sha1_Sum P data) = 20 \<and>
        length (sha256_Sum256 P data) = 32 \<and>
        length (sha512_Sum512 P data) = 64 \<and>
        length (elems (keccak_224 P data)) = 28 \<and>
        length (elems (keccak_256 P data)) = 32 \<and>
        length (elems (keccak_384 P data)) = 48 \<and>
        length (elems (keccak_512 P data)) = 64 \<and>
        sha3_512_Write P data = None \<and>
        length (elems (sha3_512_Sum P data)) = 64 \<and>
        length (blake2s_Sum256 P data) = 32 \<and>
        length (blake2b_Sum256 P data) = 32 \<and>
        length (blake2b_Sum384 P data) = 48 \<and>
        length (blake2b_Sum512 P data) = 64)"

text \<open>The ten fixed codes of the inner \<^verbatim>\<open>switch\<close> of \<^verbatim>\<open>Sum\<close>, in its order.\<close>

definition fixed_codes :: "registry \<Rightarrow> code list" where
  "fixed_codes R =
     [SHA1 R, SHA2_256 R, SHA2_512 R, KECCAK_224 R, KECCAK_256 R, KECCAK_384 R,
      KECCAK_512 R, SHA3 R, DBL_SHA2_256 R, MURMUR3 R]"

text \<open>
  The constants of the registry are well formed: the case constants of the inner
  \<^verbatim>\<open>switch\<close> are pairwise different (Go rejects a duplicate case) and none of them
  lies in a blake2 range, and the two blake2 ranges do not overlap.
\<close>

definition registry_ok :: "registry \<Rightarrow> bool" where
  "registry_ok R \<longleftrightarrow>
     distinct (fixed_codes R) \<and>
     list_all (\<lambda>c. \<not> isBlake2s R c \<and> \<not> isBlake2b R c) (fixed_codes R) \<and>
     (BLAKE2B_MAX R < BLAKE2S_MIN R \<or> BLAKE2S_MAX R < BLAKE2B_MIN R)"

text \<open>
  The number of bytes the primitive of a fixed code puts out (the length of the slice
  \<open>d\<close> of \<^verbatim>\<open>Sum\<close>), following the order of the inner \<^verbatim>\<open>switch\<close>.
\<close>

definition natural_size :: "registry \<Rightarrow> code \<Rightarrow> nat" where
  "natural_size R c =
     (if c = SHA1 R then 20
      else if c = SHA2_256 R then 32
      else if c = SHA2_512 R then 64
      else if c = KECCAK_224 R then 28
      else if c = KECCAK_256 R then 32
      else if c = KECCAK_384 R then 48
      else if c = KECCAK_512 R then 64
      else if c = SHA3 R then 64
      else if c = DBL_SHA2_256 R then 32
      else if c = MURMUR3 R then 4
      else 0)"

text \<open>
  The value of a byte sequence read as a little-endian number: the first byte is the
  least significant.
\<close>

fun le_value :: "bytes \<Rightarrow> nat" where
  "le_value [] = 0"
| "le_value (b # bs) = unat b + 256 * le_value bs"

subsection \<open>A concrete registry and concrete primitives\<close>

text \<open>
  A registry to instantiate the theorems at: the code numbers are those of the multihash
  table (sha1 \<open>0x11\<close>, sha2-256 \<open>0x12\<close>, ..., blake2b \<open>0xb201\<close> to \<open>0xb240\<close>, blake2s
  \<open>0xb241\<close> to \<open>0xb260\<close>), a code is valid when it is one of the fixed codes or lies in
  a blake2 range, the table gives every fixed code its output size and every blake2
  code its offset in the range plus one, and \<open>Encode\<close> is the encoding of the wire
  format with the length of the digest it is given.
\<close>

definition example_codes :: "code list" where
  "example_codes = [0x11, 0x12, 0x13, 0x1A, 0x1B, 0x1C, 0x1D, 0x14, 0x56, 0x22]"

definition example_lengths :: "code \<rightharpoonup> int" where
  "example_lengths c =
     (if 0xb201 \<le> c \<and> c \<le> 0xb240 then Some (uint (c - 0xb201 + 1))
      else if 0xb241 \<le> c \<and> c \<le> 0xb260 then Some (uint (c - 0xb241 + 1))
      else map_of [(0x11, 20), (0x12, 32), (0x13, 64), (0x14, 64), (0x1A, 28),
                   (0x1B, 32), (0x1C, 48), (0x1D, 64), (0x56, 32), (0x22, 4)] c)"

definition example_registry :: registry where
  "example_registry =
     \<lparr>SHA1 = 0x11, SHA2_256 = 0x12, SHA2_512 = 0x13, SHA3 = 0x14,
      KECCAK_224 = 0x1A, KECCAK_256 = 0x1B, KECCAK_384 = 0x1C, KECCAK_512 = 0x1D,
      DBL_SHA2_256 = 0x56, MURMUR3 = 0x22,
      BLAKE2B_MIN = 0xb201, BLAKE2B_MAX = 0xb240,
      BLAKE2S_MIN = 0xb241, BLAKE2S_MAX = 0xb260,
      ValidCode = (\<lambda>c. c \<in> set example_codes \<or> (0xb201 \<le> c \<and> c \<le> 0xb260)),
      DefaultLengths = example_lengths,
      Encode = (\<lambda>d c. Encode_spec d (unat c) (length d))\<rparr>"

text \<open>
  Primitives to instantiate the theorems at. They have the output sizes of the
  libraries and are no hash functions: each output byte is the length of the input, and
  the 32-bit hash is a constant. No theorem depends on the bytes they return.
\<close>

definition example_prims :: prims where
  "example_prims =
     \<lparr>sha1_Sum = (\<lambda>data. replicate 20 (of_nat (length data))),
      sha256_Sum256 = (\<lambda>data. replicate 32 (of_nat (length data))),
      sha512_Sum512 = (\<lambda>data. replicate 64 (of_nat (length data))),
      keccak_224 = (\<lambda>data. \<lparr>elems = replicate 28 (of_nat (length data)), spare = []\<rparr>),
      keccak_256 = (\<lambda>data. \<lparr>elems = replicate 32 (of_nat (length data)), spare = []\<rparr>),
      keccak_384 = (\<lambda>data. \<lparr>elems = replicate 48 (of_nat (length data)), spare = []\<rparr>),
      keccak_512 = (\<lambda>data. \<lparr>elems = replicate 64 (of_nat (length data)), spare = []\<rparr>),
      sha3_512_Write = (\<lambda>data. None),
      sha3_512_Sum = (\<lambda>data. \<lparr>elems = replicate 64 (of_nat (length data)), spare = []\<rparr>),
      blake2s_Sum256 = (\<lambda>data. replicate 32 (of_nat (length data))),
      blake2b_Sum256 = (\<lambda>data. replicate 32 (of_nat (length data))),
      blake2b_Sum384 = (\<lambda>data. replicate 48 (of_nat (length data))),
      blake2b_Sum512 = (\<lambda>data. replicate 64 (of_nat (length data))),
      murmur3_Sum32 = (\<lambda>data. 0x04030201)\<rparr>"

section \<open>Properties\<close>

subsection \<open>Auxiliary facts\<close>

declare put_uvarint.simps [simp del]

lemma unat_byte_of_nat: "k < 256 \<Longrightarrow> unat (of_nat k :: byte) = k"
  by (simp add: unat_of_nat)

lemma get_put_uvarint: "get_uvarint (put_uvarint n @ rest) = Some (n, rest)"
proof (induction n rule: put_uvarint.induct)
  case (1 n)
  show ?case
  proof (cases "n < 128")
    case True
    then have "unat (of_nat n :: byte) = n" by (simp add: unat_of_nat)
    with True show ?thesis by (simp add: put_uvarint.simps [of n])
  next
    case False
    have b: "unat (of_nat (128 + n mod 128) :: byte) = 128 + n mod 128"
      by (rule unat_byte_of_nat) simp
    from False 1 have ih: "get_uvarint (put_uvarint (n div 128) @ rest) = Some (n div 128, rest)"
      by simp
    have "put_uvarint n = of_nat (128 + n mod 128) # put_uvarint (n div 128)"
      using False by (subst put_uvarint.simps) simp
    then have "get_uvarint (put_uvarint n @ rest) =
        get_uvarint ((of_nat (128 + n mod 128) :: byte) # (put_uvarint (n div 128) @ rest))"
      by simp
    also have "\<dots> = Some (n, rest)"
      by (simp only: get_uvarint.simps b ih) simp
    finally show ?thesis .
  qed
qed

lemma low_byte: "(w :: 32 word) AND 0xff = take_bit 8 w"
proof -
  have "(0xff :: 32 word) = mask 8" by (simp add: mask_eq_exp_minus_1)
  then show ?thesis by (simp add: take_bit_eq_mask)
qed

lemma unat_low_byte: "unat (ucast (w AND 0xff :: 32 word) :: byte) = unat w mod 256"
  by (simp only: low_byte) (simp add: unsigned_ucast_eq unsigned_take_bit_eq take_bit_eq_mod unat_mod)

lemma le_value_murmur_loop: "le_value (murmur_loop k w) = unat w mod 256 ^ k"
proof (induction k arbitrary: w)
  case 0
  show ?case by simp
next
  case (Suc k)
  have d: "unat (drop_bit 8 w) = unat w div 256" 
    by (simp add: drop_bit_eq_div unat_div)
  have "le_value (murmur_loop (Suc k) w) = unat w mod 256 + 256 * ((unat w div 256) mod 256 ^ k)"
    by (simp only: murmur_loop.simps le_value.simps unat_low_byte Suc d)
  also have "\<dots> = unat w mod 256 ^ Suc k"
    by (simp add: mod_mult2_eq)
  finally show ?case .
qed

lemma le_value_murmur_loop_4: "le_value (murmur_loop 4 w) = unat w"
proof -
  have "unat w < 2 ^ 32" using unsigned_less [of w] by simp
  then have "unat w mod 256 ^ 4 = unat w" by simp
  then show ?thesis by (simp only: le_value_murmur_loop)
qed

lemma prims_okD:
  assumes "prims_ok P"
  shows "length (sha1_Sum P data) = 20" "length (sha256_Sum256 P data) = 32"
    "length (sha512_Sum512 P data) = 64" "length (elems (keccak_224 P data)) = 28"
    "length (elems (keccak_256 P data)) = 32" "length (elems (keccak_384 P data)) = 48"
    "length (elems (keccak_512 P data)) = 64" "sha3_512_Write P data = None"
    "length (elems (sha3_512_Sum P data)) = 64" "length (blake2s_Sum256 P data) = 32"
    "length (blake2b_Sum256 P data) = 32" "length (blake2b_Sum384 P data) = 48"
    "length (blake2b_Sum512 P data) = 64"
  using assms unfolding prims_ok_def by blast+

lemma blake_ranges_disjoint:
  "registry_ok R \<Longrightarrow> isBlake2b R c \<Longrightarrow> \<not> isBlake2s R c"
  unfolding registry_ok_def isBlake2s_def isBlake2b_def by auto

lemma length_murmur_loop: "length (murmur_loop k w) = k"
  by (induction k arbitrary: w) simp_all

lemma dispatch_fixed:
  assumes "prims_ok P" and "registry_ok R" and "c \<in> set (fixed_codes R)"
  shows "\<exists>d. dispatch R P data c = Inr d \<and> length (elems d) = natural_size R c"
proof -
  from assms(2,3) have nb: "\<not> isBlake2s R c" "\<not> isBlake2b R c"
    unfolding registry_ok_def list_all_iff by blast+
  from assms(2) have dist: "distinct (fixed_codes R)"
    unfolding registry_ok_def by blast
  note sz = prims_okD [OF assms(1)]
  from assms(3) dist show ?thesis
    unfolding fixed_codes_def
    by (auto simp: dispatch_def nb natural_size_def sumSHA1_def sumSHA256_def sumSHA512_def
        sumKeccak224_def sumKeccak256_def sumKeccak384_def sumKeccak512_def sumSHA3_def
        sumMURMUR3_def array_slice_def sz length_murmur_loop)
qed

lemma Sum_digest_take:
  assumes "ValidCode R c" and "resolve_length R c len = Inr n"
    and "dispatch R P data c = Inr d" and "0 \<le> n" and "nat n \<le> length (elems d)"
  shows "Sum_digest R P data c len = Inr (take (nat n) (elems d))"
  using assms by (simp add: Sum_digest_def reslice_def cap_def)


lemma prims_ok_example: "prims_ok example_prims"
  by (simp add: prims_ok_def example_prims_def)

lemma registry_ok_example: "registry_ok example_registry"
  by (simp add: registry_ok_def example_registry_def fixed_codes_def isBlake2s_def isBlake2b_def)

lemma example_consts:
  "SHA1 example_registry = 0x11" "SHA2_256 example_registry = 0x12"
  "DBL_SHA2_256 example_registry = 0x56" "MURMUR3 example_registry = 0x22"
  "BLAKE2B_MIN example_registry = 0xb201" "BLAKE2B_MAX example_registry = 0xb240"
  "BLAKE2S_MIN example_registry = 0xb241" "BLAKE2S_MAX example_registry = 0xb260"
  "DefaultLengths example_registry = example_lengths"
  by (simp_all add: example_registry_def)

lemma ValidCode_example:
  "ValidCode example_registry c \<longleftrightarrow> c \<in> set example_codes \<or> (0xb201 \<le> c \<and> c \<le> 0xb260)"
  by (simp add: example_registry_def)


lemma Sum_of_digest:
  "Sum_digest R P data c len = Inr d \<Longrightarrow> Sum R P data c len = Encode R d c"
  "Sum_digest R P data c len = Inl e \<Longrightarrow> Sum R P data c len = Inl e"
  by (simp_all add: Sum_def)

lemma example_family_facts:
  "ValidCode example_registry 0xb260" "ValidCode example_registry 0xb241"
  "ValidCode example_registry 0xb220" "ValidCode example_registry 0xb201"
  "isBlake2s example_registry 0xb260" "isBlake2s example_registry 0xb241"
  "isBlake2b example_registry 0xb220" "isBlake2b example_registry 0xb201"
  "DefaultLengths example_registry 0xb260 = Some 32"
  "DefaultLengths example_registry 0xb241 = Some 1"
  "DefaultLengths example_registry 0xb220 = Some 32"
  "DefaultLengths example_registry 0xb201 = Some 1"
  by (simp_all add: ValidCode_example isBlake2s_def isBlake2b_def example_consts
      example_lengths_def)

lemma reslice_array:
  "0 \<le> l \<Longrightarrow> nat l \<le> length xs \<Longrightarrow> reslice (whole_slice xs) l = Inr (take (nat l) xs)"
  by (simp add: reslice_def whole_slice_def cap_def)

lemma dispatch_murmur3:
  assumes "registry_ok R"
  shows "dispatch R P data (MURMUR3 R) =
    Inr \<lparr>elems = murmur_loop 4 (murmur3_Sum32 P data), spare = []\<rparr>"
proof -
  let ?c = "MURMUR3 R"
  have mem: "?c \<in> set (fixed_codes R)" by (simp add: fixed_codes_def)
  with assms have nb: "\<not> isBlake2s R ?c" "\<not> isBlake2b R ?c"
    unfolding registry_ok_def list_all_iff by blast+
  from assms have "distinct (fixed_codes R)" unfolding registry_ok_def by blast
  then have ne: "?c \<noteq> SHA1 R" "?c \<noteq> SHA2_256 R" "?c \<noteq> SHA2_512 R" "?c \<noteq> KECCAK_224 R"
    "?c \<noteq> KECCAK_256 R" "?c \<noteq> KECCAK_384 R" "?c \<noteq> KECCAK_512 R" "?c \<noteq> SHA3 R"
    "?c \<noteq> DBL_SHA2_256 R"
    unfolding fixed_codes_def by auto
  show ?thesis by (simp add: dispatch_def nb ne sumMURMUR3_def)
qed

lemma murmur_loop_4:
  "murmur_loop 4 w = [ucast (w AND 0xff), ucast (drop_bit 8 w AND 0xff),
     ucast (drop_bit 16 w AND 0xff), ucast (drop_bit 24 w AND 0xff)]"
  by (simp add: eval_nat_numeral)

lemma murmur_loop_example: "murmur_loop 4 (0x04030201 :: 32 word) = [1, 2, 3, 4]"
  by (simp add: murmur_loop_4)

lemma put_uvarint_small: "n < 128 \<Longrightarrow> put_uvarint n = [of_nat n]"
  by (simp add: put_uvarint.simps)

subsection \<open>Fixed codes with the default length\<close>

text \<open>
  C1. For every fixed code \<open>c\<close> of the \<^verbatim>\<open>switch\<close> of \<^verbatim>\<open>Sum\<close> that the registry
  accepts and gives a default length \<open>n\<close> (within the output size of the primitive of
  \<open>c\<close>), and for every input \<open>data\<close>, the empty one included, \<^verbatim>\<open>Sum\<close> with a negative
  length raises no error of its own: it computes a digest \<open>d\<close> of exactly \<open>n\<close> bytes
  and returns \<^verbatim>\<open>Encode(d, c)\<close>.
\<close>

theorem Sum_fixed_default_length:
  assumes "prims_ok P" and "registry_ok R" and "c \<in> set (fixed_codes R)" and "ValidCode R c"
    and "len < 0" and "DefaultLengths R c = Some n" and "0 \<le> n"
    and "n \<le> int (natural_size R c)"
  shows "\<exists>d. length d = nat n \<and> Sum_digest R P data c len = Inr d \<and>
    Sum R P data c len = Encode R d c"
proof -
  from dispatch_fixed [OF assms(1-3)] obtain d where
    d: "dispatch R P data c = Inr d" "length (elems d) = natural_size R c"
    by blast
  from assms(5,6) have r: "resolve_length R c len = Inr n"
    by (simp add: resolve_length_def)
  from assms(8) d(2) have le: "nat n \<le> length (elems d)" by simp
  have sd: "Sum_digest R P data c len = Inr (take (nat n) (elems d))"
    by (rule Sum_digest_take [OF assms(4) r d(1) assms(7) le])
  moreover have "length (take (nat n) (elems d)) = nat n" using le by simp
  moreover have "Sum R P data c len = Encode R (take (nat n) (elems d)) c"
    by (simp add: Sum_def sd)
  ultimately show ?thesis by blast
qed

theorem Sum_fixed_default_length_witness:
  "prims_ok example_prims \<and> registry_ok example_registry \<and>
   0x11 \<in> set (fixed_codes example_registry) \<and> ValidCode example_registry 0x11 \<and>
   (-1 :: int) < 0 \<and> DefaultLengths example_registry 0x11 = Some 20 \<and>
   (0 :: int) \<le> 20 \<and> 20 \<le> int (natural_size example_registry 0x11) \<and>
   (\<exists>d. length d = nat 20 \<and> Sum_digest example_registry example_prims [] 0x11 (-1) = Inr d \<and>
     Sum example_registry example_prims [] 0x11 (-1) = Encode example_registry d 0x11)"
proof -
  have h3: "0x11 \<in> set (fixed_codes example_registry)"
    by (simp add: fixed_codes_def example_registry_def)
  have h4: "ValidCode example_registry 0x11"
    by (simp add: ValidCode_example example_codes_def)
  have h6: "DefaultLengths example_registry 0x11 = Some 20"
    by (simp add: example_consts example_lengths_def)
  have h8: "20 \<le> int (natural_size example_registry 0x11)"
    by (simp add: natural_size_def example_registry_def)
  from Sum_fixed_default_length [OF prims_ok_example registry_ok_example h3 h4 _ h6 _ h8,
      of "-1" "[]"]
  show ?thesis
    using prims_ok_example registry_ok_example h3 h4 h6 h8 by simp
qed

subsection \<open>Family codes with the default length\<close>

text \<open>
  C2. For a code \<open>c\<close> of a blake2 range that the registry accepts and whose table entry
  is its derived size \<open>c - familyMin + 1\<close>, \<^verbatim>\<open>Sum\<close> with a negative length computes a
  digest of exactly that many bytes and returns its encoding, when the derived size is
  implemented (32 for blake2s; 32, 48 or 64 for blake2b). For an accepted code of a range
  whose derived size is not implemented, \<^verbatim>\<open>Sum\<close> with a negative length (and some
  table entry) fails with the unsupported-length error of the family.
\<close>

theorem Sum_family_default_length:
  assumes "prims_ok P" and "registry_ok R" and "ValidCode R c" and "len < 0"
    and "DefaultLengths R c = Some n"
  shows
    "(isBlake2s R c \<and> c - BLAKE2S_MIN R + 1 = 32 \<and> n = uint (c - BLAKE2S_MIN R + 1) \<longrightarrow>
        (\<exists>d. length d = unat (c - BLAKE2S_MIN R + 1) \<and>
           Sum_digest R P data c len = Inr d \<and> Sum R P data c len = Encode R d c)) \<and>
     (isBlake2b R c \<and> c - BLAKE2B_MIN R + 1 \<in> {32, 48, 64} \<and>
        n = uint (c - BLAKE2B_MIN R + 1) \<longrightarrow>
        (\<exists>d. length d = unat (c - BLAKE2B_MIN R + 1) \<and>
           Sum_digest R P data c len = Inr d \<and> Sum R P data c len = Encode R d c)) \<and>
     (isBlake2s R c \<and> c - BLAKE2S_MIN R + 1 \<noteq> 32 \<longrightarrow>
        Sum R P data c len = Inl (ErrUnsupportedBlake2s (c - BLAKE2S_MIN R + 1))) \<and>
     (isBlake2b R c \<and> c - BLAKE2B_MIN R + 1 \<notin> {32, 48, 64} \<longrightarrow>
        Sum R P data c len = Inl (ErrUnsupportedBlake2b (c - BLAKE2B_MIN R + 1)))"
proof -
  note sz = prims_okD [OF assms(1)]
  from assms(4,5) have r: "resolve_length R c len = Inr n"
    by (simp add: resolve_length_def)
  have s_ok: "\<exists>d. length d = unat (c - BLAKE2S_MIN R + 1) \<and>
      Sum_digest R P data c len = Inr d \<and> Sum R P data c len = Encode R d c"
    if "isBlake2s R c" and o: "c - BLAKE2S_MIN R + 1 = 32" and n: "n = uint (c - BLAKE2S_MIN R + 1)"
  proof -
    from that have d: "dispatch R P data c = Inr (whole_slice (blake2s_Sum256 P data))"
      by (simp add: dispatch_def)
    from n o have n32: "n = 32" by simp
    have "Sum_digest R P data c len = Inr (blake2s_Sum256 P data)"
      using assms(3) r d n32 by (simp add: Sum_digest_def reslice_def cap_def whole_slice_def sz)
    then show ?thesis using o by (simp add: Sum_of_digest sz)
  qed
  have b_ok: "\<exists>d. length d = unat (c - BLAKE2B_MIN R + 1) \<and>
      Sum_digest R P data c len = Inr d \<and> Sum R P data c len = Encode R d c"
    if b: "isBlake2b R c" and o: "c - BLAKE2B_MIN R + 1 \<in> {32, 48, 64}"
      and n: "n = uint (c - BLAKE2B_MIN R + 1)"
  proof -
    from b have ns: "\<not> isBlake2s R c" by (rule blake_ranges_disjoint [OF assms(2)])
    from o consider "c - BLAKE2B_MIN R + 1 = 32" | "c - BLAKE2B_MIN R + 1 = 48"
      | "c - BLAKE2B_MIN R + 1 = 64" by blast
    then show ?thesis
    proof cases
      case 1
      with b ns have d: "dispatch R P data c = Inr (whole_slice (blake2b_Sum256 P data))"
        by (simp add: dispatch_def)
      from n 1 have "n = 32" by simp
      then have "Sum_digest R P data c len = Inr (blake2b_Sum256 P data)"
        using assms(3) r d by (simp add: Sum_digest_def reslice_def cap_def whole_slice_def sz)
      then show ?thesis using 1 by (simp add: Sum_of_digest sz)
    next
      case 2
      with b ns have d: "dispatch R P data c = Inr (whole_slice (blake2b_Sum384 P data))"
        by (simp add: dispatch_def)
      from n 2 have "n = 48" by simp
      then have "Sum_digest R P data c len = Inr (blake2b_Sum384 P data)"
        using assms(3) r d by (simp add: Sum_digest_def reslice_def cap_def whole_slice_def sz)
      then show ?thesis using 2 by (simp add: Sum_of_digest sz)
    next
      case 3
      with b ns have d: "dispatch R P data c = Inr (whole_slice (blake2b_Sum512 P data))"
        by (simp add: dispatch_def)
      from n 3 have "n = 64" by simp
      then have "Sum_digest R P data c len = Inr (blake2b_Sum512 P data)"
        using assms(3) r d by (simp add: Sum_digest_def reslice_def cap_def whole_slice_def sz)
      then show ?thesis using 3 by (simp add: Sum_of_digest sz)
    qed
  qed
  have s_bad: "Sum R P data c len = Inl (ErrUnsupportedBlake2s (c - BLAKE2S_MIN R + 1))"
    if "isBlake2s R c" and "c - BLAKE2S_MIN R + 1 \<noteq> 32"
    using that assms(3) r by (simp add: Sum_def Sum_digest_def dispatch_def)
  have b_bad: "Sum R P data c len = Inl (ErrUnsupportedBlake2b (c - BLAKE2B_MIN R + 1))"
    if b: "isBlake2b R c" and "c - BLAKE2B_MIN R + 1 \<notin> {32, 48, 64}"
    using that assms(3) r blake_ranges_disjoint [OF assms(2) b]
    by (simp add: Sum_def Sum_digest_def dispatch_def)
  from s_ok b_ok s_bad b_bad show ?thesis by blast
qed

theorem Sum_family_default_length_witness:
  "prims_ok example_prims \<and> registry_ok example_registry \<and> (-1 :: int) < 0 \<and>
   ValidCode example_registry 0xb260 \<and> DefaultLengths example_registry 0xb260 = Some 32 \<and>
   isBlake2s example_registry 0xb260 \<and>
   (\<exists>d. length d = 32 \<and> Sum_digest example_registry example_prims [] 0xb260 (-1) = Inr d \<and>
      Sum example_registry example_prims [] 0xb260 (-1) = Encode example_registry d 0xb260) \<and>
   ValidCode example_registry 0xb220 \<and> DefaultLengths example_registry 0xb220 = Some 32 \<and>
   isBlake2b example_registry 0xb220 \<and>
   (\<exists>d. length d = 32 \<and> Sum_digest example_registry example_prims [] 0xb220 (-1) = Inr d \<and>
      Sum example_registry example_prims [] 0xb220 (-1) = Encode example_registry d 0xb220) \<and>
   ValidCode example_registry 0xb241 \<and> DefaultLengths example_registry 0xb241 = Some 1 \<and>
   isBlake2s example_registry 0xb241 \<and>
   Sum example_registry example_prims [] 0xb241 (-1) = Inl (ErrUnsupportedBlake2s 1) \<and>
   ValidCode example_registry 0xb201 \<and> DefaultLengths example_registry 0xb201 = Some 1 \<and>
   isBlake2b example_registry 0xb201 \<and>
   Sum example_registry example_prims [] 0xb201 (-1) = Inl (ErrUnsupportedBlake2b 1)"
proof -
  note f = example_family_facts
  have neg: "(-1 :: int) < 0" by simp
  have a: "\<exists>d. length d = 32 \<and> Sum_digest example_registry example_prims [] 0xb260 (-1) = Inr d \<and>
      Sum example_registry example_prims [] 0xb260 (-1) = Encode example_registry d 0xb260"
    using Sum_family_default_length [OF prims_ok_example registry_ok_example f(1) neg f(9), of "[]"] f(5)
    by (simp add: example_consts)
  have b: "\<exists>d. length d = 32 \<and> Sum_digest example_registry example_prims [] 0xb220 (-1) = Inr d \<and>
      Sum example_registry example_prims [] 0xb220 (-1) = Encode example_registry d 0xb220"
    using Sum_family_default_length [OF prims_ok_example registry_ok_example f(3) neg f(11), of "[]"] f(7)
    by (simp add: example_consts)
  have c: "Sum example_registry example_prims [] 0xb241 (-1) = Inl (ErrUnsupportedBlake2s 1)"
    using Sum_family_default_length [OF prims_ok_example registry_ok_example f(2) neg f(10), of "[]"] f(6)
    by (simp add: example_consts)
  have d: "Sum example_registry example_prims [] 0xb201 (-1) = Inl (ErrUnsupportedBlake2b 1)"
    using Sum_family_default_length [OF prims_ok_example registry_ok_example f(4) neg f(12), of "[]"] f(8)
    by (simp add: example_consts)
  from a b c d f prims_ok_example registry_ok_example show ?thesis by simp
qed

subsection \<open>Codes the registry rejects, codes without a default length\<close>

text \<open>
  C7. For a code that \<^verbatim>\<open>ValidCode\<close> rejects, \<^verbatim>\<open>Sum\<close> fails with the invalid-code
  error whatever the data, the length and the hash libraries are, so before any digest
  is computed; for a code it accepts, a negative length and no table entry, \<^verbatim>\<open>Sum\<close>
  fails with the no-default-length error.
\<close>

theorem Sum_rejects_unknown_code:
  "(\<not> ValidCode R c \<longrightarrow> Sum R P data c len = Inl (ErrInvalidCode c)) \<and>
   (ValidCode R c \<and> len < 0 \<and> DefaultLengths R c = None \<longrightarrow>
      Sum R P data c len = Inl (ErrNoDefaultLength c))"
  by (simp add: Sum_def Sum_digest_def resolve_length_def)

theorem Sum_rejects_unknown_code_witness:
  "\<not> ValidCode example_registry 0x99 \<and>
   Sum example_registry example_prims [1, 2, 3] 0x99 20 = Inl (ErrInvalidCode 0x99) \<and>
   ValidCode (example_registry\<lparr>DefaultLengths := Map.empty\<rparr>) 0x11 \<and> (-1 :: int) < 0 \<and>
   DefaultLengths (example_registry\<lparr>DefaultLengths := Map.empty\<rparr>) 0x11 = None \<and>
   Sum (example_registry\<lparr>DefaultLengths := Map.empty\<rparr>) example_prims [] 0x11 (-1) =
     Inl (ErrNoDefaultLength 0x11)"
proof -
  have a: "\<not> ValidCode example_registry 0x99"
    by (simp add: ValidCode_example example_codes_def)
  have b: "ValidCode (example_registry\<lparr>DefaultLengths := Map.empty\<rparr>) 0x11"
    by (simp add: ValidCode_example example_codes_def)
  have c: "DefaultLengths (example_registry\<lparr>DefaultLengths := Map.empty\<rparr>) 0x11 = None"
    by simp
  from a b c
    Sum_rejects_unknown_code [of example_registry "0x99" example_prims "[1, 2, 3]" 20]
    Sum_rejects_unknown_code [of "example_registry\<lparr>DefaultLengths := Map.empty\<rparr>" "0x11"
      example_prims "[]" "-1"]
  show ?thesis by simp
qed

subsection \<open>The double SHA-256\<close>

text \<open>
  C8. With the code \<^verbatim>\<open>DBL_SHA2_256\<close> and a negative length, the digest of \<^verbatim>\<open>Sum\<close>
  is SHA-256 applied to the SHA-256 of the input, cut to the default length \<open>n\<close> of the
  table; this holds for every input, the empty byte sequence among them. The bytes are
  those of the library's \<^verbatim>\<open>sha256.Sum256\<close>.
\<close>

theorem Sum_dbl_sha256:
  assumes "prims_ok P" and "registry_ok R" and "ValidCode R (DBL_SHA2_256 R)" and "len < 0"
    and "DefaultLengths R (DBL_SHA2_256 R) = Some n" and "0 \<le> n" and "n \<le> 32"
  shows "Sum_digest R P data (DBL_SHA2_256 R) len =
           Inr (take (nat n) (sha256_Sum256 P (sha256_Sum256 P data))) \<and>
         Sum R P data (DBL_SHA2_256 R) len =
           Encode R (take (nat n) (sha256_Sum256 P (sha256_Sum256 P data))) (DBL_SHA2_256 R) \<and>
         length (take (nat n) (sha256_Sum256 P (sha256_Sum256 P data))) = nat n"
proof -
  note sz = prims_okD [OF assms(1)]
  let ?c = "DBL_SHA2_256 R"
  have mem: "?c \<in> set (fixed_codes R)" by (simp add: fixed_codes_def)
  with assms(2) have nb: "\<not> isBlake2s R ?c" "\<not> isBlake2b R ?c"
    unfolding registry_ok_def list_all_iff by blast+
  from assms(2) have "distinct (fixed_codes R)" unfolding registry_ok_def by blast
  then have ne: "?c \<noteq> SHA1 R" "?c \<noteq> SHA2_256 R" "?c \<noteq> SHA2_512 R" "?c \<noteq> KECCAK_224 R"
    "?c \<noteq> KECCAK_256 R" "?c \<noteq> KECCAK_384 R" "?c \<noteq> KECCAK_512 R" "?c \<noteq> SHA3 R"
    unfolding fixed_codes_def by auto
  have d: "dispatch R P data ?c = Inr (sumSHA256 P (elems (sumSHA256 P data)))"
    by (simp add: dispatch_def nb ne)
  have e: "elems (sumSHA256 P x) = sha256_Sum256 P x" for x
    by (simp add: sumSHA256_def array_slice_def sz)
  from assms(4,5) have r: "resolve_length R ?c len = Inr n"
    by (simp add: resolve_length_def)
  from assms(7) have le: "nat n \<le> length (elems (sumSHA256 P (elems (sumSHA256 P data))))"
    by (simp add: e sz)
  have sd: "Sum_digest R P data ?c len = Inr (take (nat n) (sha256_Sum256 P (sha256_Sum256 P data)))"
    using Sum_digest_take [OF assms(3) r d assms(6) le] by (simp add: e)
  moreover from sd have "Sum R P data ?c len =
      Encode R (take (nat n) (sha256_Sum256 P (sha256_Sum256 P data))) ?c"
    by (rule Sum_of_digest)
  moreover have "length (take (nat n) (sha256_Sum256 P (sha256_Sum256 P data))) = nat n"
    using assms(7) by (simp add: sz)
  ultimately show ?thesis by blast
qed


theorem Sum_dbl_sha256_witness:
  "prims_ok example_prims \<and> registry_ok example_registry \<and>
   ValidCode example_registry (DBL_SHA2_256 example_registry) \<and> (-1 :: int) < 0 \<and>
   DefaultLengths example_registry (DBL_SHA2_256 example_registry) = Some 32 \<and>
   (0 :: int) \<le> 32 \<and> (32 :: int) \<le> 32 \<and>
   Sum_digest example_registry example_prims [] (DBL_SHA2_256 example_registry) (-1) =
     Inr (take (nat 32) (sha256_Sum256 example_prims (sha256_Sum256 example_prims []))) \<and>
   Sum example_registry example_prims [] (DBL_SHA2_256 example_registry) (-1) =
     Encode example_registry
       (take (nat 32) (sha256_Sum256 example_prims (sha256_Sum256 example_prims [])))
       (DBL_SHA2_256 example_registry) \<and>
   length (take (nat 32) (sha256_Sum256 example_prims (sha256_Sum256 example_prims []))) = nat 32"
proof -
  have v: "ValidCode example_registry (DBL_SHA2_256 example_registry)"
    by (simp add: ValidCode_example example_consts example_codes_def)
  have t: "DefaultLengths example_registry (DBL_SHA2_256 example_registry) = Some 32"
    by (simp add: example_consts example_lengths_def)
  have neg: "(-1 :: int) < 0" "(0 :: int) \<le> 32" "(32 :: int) \<le> 32" by simp_all
  from Sum_dbl_sha256 [OF prims_ok_example registry_ok_example v neg(1) t neg(2,3), of "[]"]
    prims_ok_example registry_ok_example v t
  show ?thesis by simp
qed

subsection \<open>Truncation\<close>

text \<open>
  C6. For a code the registry accepts, with default length \<open>n\<close>, and a length \<open>l\<close> with
  \<open>0 \<le> l < n\<close>: when \<^verbatim>\<open>Sum(data, code, n)\<close> computes the digest \<open>dn\<close>, then
  \<^verbatim>\<open>Sum(data, code, l)\<close> computes exactly the first \<open>l\<close> bytes of \<open>dn\<close>, and both
  return the encoding of their digest.
\<close>

theorem Sum_truncation:
  assumes "ValidCode R c" and "DefaultLengths R c = Some n" and "0 \<le> l" and "l < n"
    and "Sum_digest R P data c n = Inr dn"
  shows "Sum_digest R P data c l = Inr (take (nat l) dn) \<and>
         Sum R P data c l = Encode R (take (nat l) dn) c \<and>
         Sum R P data c n = Encode R dn c \<and>
         length (take (nat l) dn) = nat l \<and> length dn = nat n"
proof -
  from assms(3,4) have n0: "0 \<le> n" by simp
  from assms(3) have rl: "resolve_length R c l = Inr l" by (simp add: resolve_length_def)
  from n0 have rn: "resolve_length R c n = Inr n" by (simp add: resolve_length_def)
  from assms(1,5) rn obtain d where d: "dispatch R P data c = Inr d" and s: "reslice d n = Inr dn"
    by (auto simp: Sum_digest_def split: sum.splits)
  from s n0 have cap: "n \<le> int (cap d)" and dn: "dn = take (nat n) (elems d @ spare d)"
    by (auto simp: reslice_def split: if_splits)
  from assms(3,4) cap have "reslice d l = Inr (take (nat l) (elems d @ spare d))"
    by (simp add: reslice_def)
  moreover from assms(3,4) have "take (nat l) dn = take (nat l) (elems d @ spare d)"
    by (simp add: dn min_def)
  ultimately have sl: "Sum_digest R P data c l = Inr (take (nat l) dn)"
    using assms(1) rl d by (simp add: Sum_digest_def)
  from cap n0 have ln: "length dn = nat n" by (simp add: dn cap_def)
  with assms(3,4) have ll: "length (take (nat l) dn) = nat l" by simp
  from sl assms(5) ln ll show ?thesis by (simp add: Sum_of_digest)
qed

theorem Sum_truncation_witness:
  "ValidCode example_registry 0x12 \<and> DefaultLengths example_registry 0x12 = Some 32 \<and>
   (0 :: int) \<le> 5 \<and> (5 :: int) < 32 \<and>
   Sum_digest example_registry example_prims [7] 0x12 32 = Inr (replicate 32 1) \<and>
   Sum_digest example_registry example_prims [7] 0x12 5 = Inr (take (nat 5) (replicate 32 1)) \<and>
   Sum example_registry example_prims [7] 0x12 5 =
     Encode example_registry (take (nat 5) (replicate 32 1)) 0x12 \<and>
   Sum example_registry example_prims [7] 0x12 32 = Encode example_registry (replicate 32 1) 0x12 \<and>
   length (take (nat 5) (replicate 32 (1 :: byte))) = nat 5 \<and>
   length (replicate 32 (1 :: byte)) = nat 32"
proof -
  have v: "ValidCode example_registry 0x12"
    by (simp add: ValidCode_example example_codes_def)
  have t: "DefaultLengths example_registry 0x12 = Some 32"
    by (simp add: example_consts example_lengths_def)
  have nb: "\<not> isBlake2s example_registry 0x12" "\<not> isBlake2b example_registry 0x12"
    by (simp_all add: isBlake2s_def isBlake2b_def example_consts)
  have d: "dispatch example_registry example_prims [7] 0x12 =
      Inr \<lparr>elems = replicate 32 1, spare = []\<rparr>"
    by (simp add: dispatch_def nb example_consts sumSHA256_def array_slice_def example_prims_def)
  have s: "Sum_digest example_registry example_prims [7] 0x12 32 = Inr (replicate 32 1)"
    by (simp add: Sum_digest_def v resolve_length_def d reslice_def cap_def)
  have h: "(0 :: int) \<le> 5" "(5 :: int) < 32" by simp_all
  from Sum_truncation [OF v t h s] v t s show ?thesis by simp
qed

subsection \<open>Family codes with an explicit length\<close>

text \<open>
  C10, as the claim is written, fails: a code of a blake2 range whose derived size is not
  implemented gets the unsupported-length error also when the explicit length is within
  the derived size. Here the first code of the blake2b range (derived size 1) with
  length 1.
\<close>

theorem Sum_family_unsupported_counterexample:
  "ValidCode example_registry 0xb201 \<and> isBlake2b example_registry 0xb201 \<and>
   0xb201 - BLAKE2B_MIN example_registry + 1 = 1 \<and>
   Sum example_registry example_prims [] 0xb201 1 = Inl (ErrUnsupportedBlake2b 1)"
  by (simp add: example_family_facts Sum_def Sum_digest_def resolve_length_def dispatch_def
      isBlake2s_def example_consts)

text \<open>
  C10, amended. For a code of a blake2 range that the registry accepts and whose derived
  size \<open>c - familyMin + 1\<close> is implemented (32 for blake2s; 32, 48 or 64 for blake2b),
  the primitive is chosen by the derived size alone, and an explicit length \<open>l\<close> with
  \<open>0 \<le> l \<le> c - familyMin + 1\<close> only cuts its output: the digest of \<^verbatim>\<open>Sum\<close> is the
  first \<open>l\<close> bytes of the output of that primitive, and \<^verbatim>\<open>Sum\<close> returns its encoding.
\<close>

theorem Sum_family_explicit_length:
  assumes "prims_ok P" and "registry_ok R" and "ValidCode R c" and "0 \<le> l"
  shows
    "(isBlake2s R c \<and> c - BLAKE2S_MIN R + 1 = 32 \<and> l \<le> uint (c - BLAKE2S_MIN R + 1) \<longrightarrow>
        Sum_digest R P data c l = Inr (take (nat l) (blake2s_Sum256 P data)) \<and>
        Sum R P data c l = Encode R (take (nat l) (blake2s_Sum256 P data)) c) \<and>
     (isBlake2b R c \<and> c - BLAKE2B_MIN R + 1 = 32 \<and> l \<le> uint (c - BLAKE2B_MIN R + 1) \<longrightarrow>
        Sum_digest R P data c l = Inr (take (nat l) (blake2b_Sum256 P data)) \<and>
        Sum R P data c l = Encode R (take (nat l) (blake2b_Sum256 P data)) c) \<and>
     (isBlake2b R c \<and> c - BLAKE2B_MIN R + 1 = 48 \<and> l \<le> uint (c - BLAKE2B_MIN R + 1) \<longrightarrow>
        Sum_digest R P data c l = Inr (take (nat l) (blake2b_Sum384 P data)) \<and>
        Sum R P data c l = Encode R (take (nat l) (blake2b_Sum384 P data)) c) \<and>
     (isBlake2b R c \<and> c - BLAKE2B_MIN R + 1 = 64 \<and> l \<le> uint (c - BLAKE2B_MIN R + 1) \<longrightarrow>
        Sum_digest R P data c l = Inr (take (nat l) (blake2b_Sum512 P data)) \<and>
        Sum R P data c l = Encode R (take (nat l) (blake2b_Sum512 P data)) c)"
proof -
  note sz = prims_okD [OF assms(1)]
  from assms(4) have r: "resolve_length R c l = Inr l" by (simp add: resolve_length_def)
  have fin: "Sum_digest R P data c l = Inr (take (nat l) xs) \<and>
      Sum R P data c l = Encode R (take (nat l) xs) c"
    if "dispatch R P data c = Inr (whole_slice xs)" and "nat l \<le> length xs" for xs
  proof -
    from that assms(3,4) r have "Sum_digest R P data c l = Inr (take (nat l) xs)"
      by (simp add: Sum_digest_def reslice_array)
    then show ?thesis by (simp add: Sum_of_digest)
  qed
  have s32: "Sum_digest R P data c l = Inr (take (nat l) (blake2s_Sum256 P data)) \<and>
      Sum R P data c l = Encode R (take (nat l) (blake2s_Sum256 P data)) c"
    if "isBlake2s R c" and o: "c - BLAKE2S_MIN R + 1 = 32" and "l \<le> uint (c - BLAKE2S_MIN R + 1)"
  proof (rule fin)
    from that show "dispatch R P data c = Inr (whole_slice (blake2s_Sum256 P data))"
      by (simp add: dispatch_def)
    from that show "nat l \<le> length (blake2s_Sum256 P data)" by (simp add: sz)
  qed
  have b32: "Sum_digest R P data c l = Inr (take (nat l) (blake2b_Sum256 P data)) \<and>
      Sum R P data c l = Encode R (take (nat l) (blake2b_Sum256 P data)) c"
    if b: "isBlake2b R c" and o: "c - BLAKE2B_MIN R + 1 = 32" and "l \<le> uint (c - BLAKE2B_MIN R + 1)"
  proof (rule fin)
    from that blake_ranges_disjoint [OF assms(2) b]
    show "dispatch R P data c = Inr (whole_slice (blake2b_Sum256 P data))"
      by (simp add: dispatch_def)
    from that show "nat l \<le> length (blake2b_Sum256 P data)" by (simp add: sz)
  qed
  have b48: "Sum_digest R P data c l = Inr (take (nat l) (blake2b_Sum384 P data)) \<and>
      Sum R P data c l = Encode R (take (nat l) (blake2b_Sum384 P data)) c"
    if b: "isBlake2b R c" and o: "c - BLAKE2B_MIN R + 1 = 48" and "l \<le> uint (c - BLAKE2B_MIN R + 1)"
  proof (rule fin)
    from that blake_ranges_disjoint [OF assms(2) b]
    show "dispatch R P data c = Inr (whole_slice (blake2b_Sum384 P data))"
      by (simp add: dispatch_def)
    from that show "nat l \<le> length (blake2b_Sum384 P data)" by (simp add: sz)
  qed
  have b64: "Sum_digest R P data c l = Inr (take (nat l) (blake2b_Sum512 P data)) \<and>
      Sum R P data c l = Encode R (take (nat l) (blake2b_Sum512 P data)) c"
    if b: "isBlake2b R c" and o: "c - BLAKE2B_MIN R + 1 = 64" and "l \<le> uint (c - BLAKE2B_MIN R + 1)"
  proof (rule fin)
    from that blake_ranges_disjoint [OF assms(2) b]
    show "dispatch R P data c = Inr (whole_slice (blake2b_Sum512 P data))"
      by (simp add: dispatch_def)
    from that show "nat l \<le> length (blake2b_Sum512 P data)" by (simp add: sz)
  qed
  from s32 b32 b48 b64 show ?thesis by blast
qed

theorem Sum_family_explicit_length_witness:
  "prims_ok example_prims \<and> registry_ok example_registry \<and>
   ValidCode example_registry 0xb260 \<and> isBlake2s example_registry 0xb260 \<and>
   0xb260 - BLAKE2S_MIN example_registry + 1 = 32 \<and>
   (0 :: int) \<le> 10 \<and> 10 \<le> uint (0xb260 - BLAKE2S_MIN example_registry + 1) \<and>
   Sum_digest example_registry example_prims [] 0xb260 10 =
     Inr (take (nat 10) (blake2s_Sum256 example_prims [])) \<and>
   Sum example_registry example_prims [] 0xb260 10 =
     Encode example_registry (take (nat 10) (blake2s_Sum256 example_prims [])) 0xb260 \<and>
   ValidCode example_registry 0xb220 \<and> isBlake2b example_registry 0xb220 \<and>
   0xb220 - BLAKE2B_MIN example_registry + 1 = 32 \<and>
   (0 :: int) \<le> 32 \<and> 32 \<le> uint (0xb220 - BLAKE2B_MIN example_registry + 1) \<and>
   Sum_digest example_registry example_prims [] 0xb220 32 =
     Inr (take (nat 32) (blake2b_Sum256 example_prims [])) \<and>
   Sum example_registry example_prims [] 0xb220 32 =
     Encode example_registry (take (nat 32) (blake2b_Sum256 example_prims [])) 0xb220 \<and>
   ValidCode example_registry 0xb230 \<and> isBlake2b example_registry 0xb230 \<and>
   0xb230 - BLAKE2B_MIN example_registry + 1 = 48 \<and>
   (0 :: int) \<le> 0 \<and> 0 \<le> uint (0xb230 - BLAKE2B_MIN example_registry + 1) \<and>
   Sum_digest example_registry example_prims [] 0xb230 0 =
     Inr (take (nat 0) (blake2b_Sum384 example_prims [])) \<and>
   Sum example_registry example_prims [] 0xb230 0 =
     Encode example_registry (take (nat 0) (blake2b_Sum384 example_prims [])) 0xb230 \<and>
   ValidCode example_registry 0xb240 \<and> isBlake2b example_registry 0xb240 \<and>
   0xb240 - BLAKE2B_MIN example_registry + 1 = 64 \<and>
   (0 :: int) \<le> 64 \<and> 64 \<le> uint (0xb240 - BLAKE2B_MIN example_registry + 1) \<and>
   Sum_digest example_registry example_prims [] 0xb240 64 =
     Inr (take (nat 64) (blake2b_Sum512 example_prims [])) \<and>
   Sum example_registry example_prims [] 0xb240 64 =
     Encode example_registry (take (nat 64) (blake2b_Sum512 example_prims [])) 0xb240"
proof -
  have v: "ValidCode example_registry 0xb260" "ValidCode example_registry 0xb220"
    "ValidCode example_registry 0xb230" "ValidCode example_registry 0xb240"
    by (simp_all add: ValidCode_example)
  have m: "isBlake2s example_registry 0xb260" "isBlake2b example_registry 0xb220"
    "isBlake2b example_registry 0xb230" "isBlake2b example_registry 0xb240"
    by (simp_all add: isBlake2s_def isBlake2b_def example_consts)
  have o: "0xb260 - BLAKE2S_MIN example_registry + 1 = 32"
    "0xb220 - BLAKE2B_MIN example_registry + 1 = 32"
    "0xb230 - BLAKE2B_MIN example_registry + 1 = 48"
    "0xb240 - BLAKE2B_MIN example_registry + 1 = 64"
    by (simp_all add: example_consts)
  have z: "(0 :: int) \<le> 10" "(0 :: int) \<le> 32" "(0 :: int) \<le> 0" "(0 :: int) \<le> 64"
    by simp_all
  note t = Sum_family_explicit_length [OF prims_ok_example registry_ok_example]
  have a: "Sum_digest example_registry example_prims [] 0xb260 10 =
       Inr (take (nat 10) (blake2s_Sum256 example_prims [])) \<and>
     Sum example_registry example_prims [] 0xb260 10 =
       Encode example_registry (take (nat 10) (blake2s_Sum256 example_prims [])) 0xb260"
    using t [OF v(1) z(1), of "[]"] m(1) o(1) by simp
  have b: "Sum_digest example_registry example_prims [] 0xb220 32 =
       Inr (take (nat 32) (blake2b_Sum256 example_prims [])) \<and>
     Sum example_registry example_prims [] 0xb220 32 =
       Encode example_registry (take (nat 32) (blake2b_Sum256 example_prims [])) 0xb220"
    using t [OF v(2) z(2), of "[]"] m(2) o(2) by simp
  have c: "Sum_digest example_registry example_prims [] 0xb230 0 =
       Inr (take (nat 0) (blake2b_Sum384 example_prims [])) \<and>
     Sum example_registry example_prims [] 0xb230 0 =
       Encode example_registry (take (nat 0) (blake2b_Sum384 example_prims [])) 0xb230"
    using t [OF v(3) z(3), of "[]"] m(3) o(3) by simp
  have d: "Sum_digest example_registry example_prims [] 0xb240 64 =
       Inr (take (nat 64) (blake2b_Sum512 example_prims [])) \<and>
     Sum example_registry example_prims [] 0xb240 64 =
       Encode example_registry (take (nat 64) (blake2b_Sum512 example_prims [])) 0xb240"
    using t [OF v(4) z(4), of "[]"] m(4) o(4) by simp
  from a b c d v m o prims_ok_example registry_ok_example show ?thesis by simp
qed

subsection \<open>murmur3\<close>

text \<open>
  C5, as the claim is written, fails: an explicit length other than 4 is accepted. With
  length 2, \<^verbatim>\<open>Sum\<close> returns the multihash of the first two bytes of the digest.
\<close>

theorem Sum_murmur3_short_length_counterexample:
  "MURMUR3 example_registry = 0x22 \<and>
   Sum_digest example_registry example_prims [] 0x22 2 = Inr [1, 2] \<and>
   Sum example_registry example_prims [] 0x22 2 = Inr [0x22, 2, 1, 2]"
proof -
  have v: "ValidCode example_registry 0x22"
    by (simp add: ValidCode_example example_codes_def)
  have nb: "\<not> isBlake2s example_registry 0x22" "\<not> isBlake2b example_registry 0x22"
    by (simp_all add: isBlake2s_def isBlake2b_def example_consts)
  have d: "dispatch example_registry example_prims [] 0x22 = Inr \<lparr>elems = [1, 2, 3, 4], spare = []\<rparr>"
    by (simp add: dispatch_def isBlake2s_def isBlake2b_def example_registry_def sumMURMUR3_def
        example_prims_def murmur_loop_example)
  have s: "Sum_digest example_registry example_prims [] 0x22 2 = Inr [1, 2]"
    by (simp add: Sum_digest_def v resolve_length_def d reslice_def cap_def)
  have e: "Encode example_registry [1, 2] 0x22 = Inr [0x22, 2, 1, 2]"
    by (simp add: example_registry_def Encode_spec_def put_uvarint_small)
  from s e show ?thesis by (simp add: Sum_def example_consts)
qed

text \<open>
  C5, amended. For the murmur3 code, the slice \<open>d\<close> of \<^verbatim>\<open>Sum\<close> is the 4-byte
  little-endian encoding of the 32-bit hash of the input; an explicit length \<open>l\<close> with
  \<open>0 \<le> l \<le> 4\<close> is accepted and yields the first \<open>l\<close> bytes of it (all four for
  \<open>l = 4\<close>); with a negative length the default length \<open>n\<close> of the table is used in
  the same way.
\<close>

theorem Sum_murmur3:
  assumes "registry_ok R" and "ValidCode R (MURMUR3 R)"
  shows
    "(0 \<le> l \<and> l \<le> 4 \<longrightarrow>
        Sum_digest R P data (MURMUR3 R) l =
          Inr (take (nat l) (murmur_loop 4 (murmur3_Sum32 P data))) \<and>
        Sum R P data (MURMUR3 R) l =
          Encode R (take (nat l) (murmur_loop 4 (murmur3_Sum32 P data))) (MURMUR3 R)) \<and>
     (l < 0 \<and> DefaultLengths R (MURMUR3 R) = Some n \<and> 0 \<le> n \<and> n \<le> 4 \<longrightarrow>
        Sum_digest R P data (MURMUR3 R) l =
          Inr (take (nat n) (murmur_loop 4 (murmur3_Sum32 P data))) \<and>
        Sum R P data (MURMUR3 R) l =
          Encode R (take (nat n) (murmur_loop 4 (murmur3_Sum32 P data))) (MURMUR3 R)) \<and>
     length (murmur_loop 4 (murmur3_Sum32 P data)) = 4 \<and>
     le_value (murmur_loop 4 (murmur3_Sum32 P data)) = unat (murmur3_Sum32 P data)"
proof -
  let ?d = "\<lparr>elems = murmur_loop 4 (murmur3_Sum32 P data), spare = []\<rparr>"
  note d = dispatch_murmur3 [OF assms(1), of P data]
  have fin: "Sum_digest R P data (MURMUR3 R) l =
        Inr (take (nat k) (murmur_loop 4 (murmur3_Sum32 P data))) \<and>
      Sum R P data (MURMUR3 R) l =
        Encode R (take (nat k) (murmur_loop 4 (murmur3_Sum32 P data))) (MURMUR3 R)"
    if r: "resolve_length R (MURMUR3 R) l = Inr k" and k: "0 \<le> k" "k \<le> 4" for k
  proof -
    from k have "nat k \<le> length (elems ?d)" by (simp add: length_murmur_loop)
    from Sum_digest_take [OF assms(2) r d k(1) this]
    have "Sum_digest R P data (MURMUR3 R) l =
        Inr (take (nat k) (murmur_loop 4 (murmur3_Sum32 P data)))" by simp
    then show ?thesis by (simp add: Sum_of_digest)
  qed
  have a: "Sum_digest R P data (MURMUR3 R) l =
        Inr (take (nat l) (murmur_loop 4 (murmur3_Sum32 P data))) \<and>
      Sum R P data (MURMUR3 R) l =
        Encode R (take (nat l) (murmur_loop 4 (murmur3_Sum32 P data))) (MURMUR3 R)"
    if "0 \<le> l" "l \<le> 4"
    using that by (intro fin) (simp_all add: resolve_length_def)
  have b: "Sum_digest R P data (MURMUR3 R) l =
        Inr (take (nat n) (murmur_loop 4 (murmur3_Sum32 P data))) \<and>
      Sum R P data (MURMUR3 R) l =
        Encode R (take (nat n) (murmur_loop 4 (murmur3_Sum32 P data))) (MURMUR3 R)"
    if "l < 0" "DefaultLengths R (MURMUR3 R) = Some n" "0 \<le> n" "n \<le> 4"
    using that by (intro fin) (simp_all add: resolve_length_def)
  from a b show ?thesis
    by (simp add: length_murmur_loop le_value_murmur_loop_4)
qed


theorem Sum_murmur3_witness:
  "registry_ok example_registry \<and> ValidCode example_registry (MURMUR3 example_registry) \<and>
   (0 :: int) \<le> 2 \<and> (2 :: int) \<le> 4 \<and>
   Sum_digest example_registry example_prims [] (MURMUR3 example_registry) 2 =
     Inr (take (nat 2) (murmur_loop 4 (murmur3_Sum32 example_prims []))) \<and>
   Sum example_registry example_prims [] (MURMUR3 example_registry) 2 =
     Encode example_registry (take (nat 2) (murmur_loop 4 (murmur3_Sum32 example_prims [])))
       (MURMUR3 example_registry) \<and>
   (-1 :: int) < 0 \<and> DefaultLengths example_registry (MURMUR3 example_registry) = Some 4 \<and>
   (0 :: int) \<le> 4 \<and> (4 :: int) \<le> 4 \<and>
   Sum_digest example_registry example_prims [] (MURMUR3 example_registry) (-1) =
     Inr (take (nat 4) (murmur_loop 4 (murmur3_Sum32 example_prims []))) \<and>
   Sum example_registry example_prims [] (MURMUR3 example_registry) (-1) =
     Encode example_registry (take (nat 4) (murmur_loop 4 (murmur3_Sum32 example_prims [])))
       (MURMUR3 example_registry) \<and>
   length (murmur_loop 4 (murmur3_Sum32 example_prims [])) = 4 \<and>
   le_value (murmur_loop 4 (murmur3_Sum32 example_prims [])) =
     unat (murmur3_Sum32 example_prims [])"
proof -
  have v: "ValidCode example_registry (MURMUR3 example_registry)"
    by (simp add: ValidCode_example example_consts example_codes_def)
  have t: "DefaultLengths example_registry (MURMUR3 example_registry) = Some 4"
    by (simp add: example_consts example_lengths_def)
  from Sum_murmur3 [OF registry_ok_example v, of 2 example_prims "[]" 4]
    Sum_murmur3 [OF registry_ok_example v, of "-1" example_prims "[]" 4]
    registry_ok_example v t
  show ?thesis by simp
qed

subsection \<open>An explicit length beyond the output of the primitive\<close>

text \<open>
  C4. \<^verbatim>\<open>Sum\<close> has no check of an explicit length against the size of the digest. With
  the SHA2-256 code and a length above 32, the slice \<open>d\<close> has length and capacity 32,
  so the slice expression \<^verbatim>\<open>d[0:length]\<close> of line 93 is reached and panics: \<^verbatim>\<open>Sum\<close>
  returns no error value.
\<close>

theorem Sum_overlong_length_panics:
  assumes "prims_ok P" and "registry_ok R" and "ValidCode R (SHA2_256 R)" and "32 < len"
  shows "Sum R P data (SHA2_256 R) len = Inl PanicSliceBounds \<and>
         \<not> returned_error (Sum R P data (SHA2_256 R) len)"
proof -
  note sz = prims_okD [OF assms(1)]
  let ?c = "SHA2_256 R"
  have mem: "?c \<in> set (fixed_codes R)" by (simp add: fixed_codes_def)
  with assms(2) have nb: "\<not> isBlake2s R ?c" "\<not> isBlake2b R ?c"
    unfolding registry_ok_def list_all_iff by blast+
  from assms(2) have "distinct (fixed_codes R)" unfolding registry_ok_def by blast
  then have ne: "?c \<noteq> SHA1 R" unfolding fixed_codes_def by auto
  have d: "dispatch R P data ?c = Inr (sumSHA256 P data)"
    by (simp add: dispatch_def nb ne)
  have c: "cap (sumSHA256 P data) = 32"
    by (simp add: cap_def sumSHA256_def array_slice_def sz)
  from assms(4) have r: "resolve_length R ?c len = Inr len" by (simp add: resolve_length_def)
  from assms(3,4) r d c have "Sum_digest R P data ?c len = Inl PanicSliceBounds"
    by (simp add: Sum_digest_def reslice_def)
  then show ?thesis by (simp add: Sum_def)
qed

theorem Sum_overlong_length_panics_witness:
  "prims_ok example_prims \<and> registry_ok example_registry \<and>
   ValidCode example_registry (SHA2_256 example_registry) \<and> (32 :: int) < 33 \<and>
   Sum example_registry example_prims [] (SHA2_256 example_registry) 33 = Inl PanicSliceBounds \<and>
   \<not> returned_error (Sum example_registry example_prims [] (SHA2_256 example_registry) 33)"
proof -
  have v: "ValidCode example_registry (SHA2_256 example_registry)"
    by (simp add: ValidCode_example example_consts example_codes_def)
  have l: "(32 :: int) < 33" by simp
  from Sum_overlong_length_panics [OF prims_ok_example registry_ok_example v l, of "[]"]
    prims_ok_example registry_ok_example v
  show ?thesis by simp
qed

subsection \<open>The round trip of the codec\<close>

text \<open>
  C3. For every digest \<open>d\<close>, code \<open>c\<close> in the unsigned 64-bit range and length \<open>l\<close>
  equal to the size of \<open>d\<close>, encoding succeeds and decoding the encoding gives back
  exactly \<open>(c, l, d)\<close>.
\<close>

theorem Decode_Encode_roundtrip:
  assumes "length d = l" and "c < 2 ^ 64"
  shows "\<exists>bs. Encode_spec d c l = Inr bs \<and> Decode_spec bs = Inr (c, l, d)"
  using assms by (simp add: Encode_spec_def Decode_spec_def get_put_uvarint)

theorem Decode_Encode_roundtrip_witness:
  "length [1, 2, 3 :: byte] = 3 \<and> (0xb220 :: nat) < 2 ^ 64 \<and>
   (\<exists>bs. Encode_spec [1, 2, 3] 0xb220 3 = Inr bs \<and> Decode_spec bs = Inr (0xb220, 3, [1, 2, 3]))"
proof -
  have a: "length [1, 2, 3 :: byte] = 3" by simp
  have b: "(0xb220 :: nat) < 2 ^ 64" by simp
  from Decode_Encode_roundtrip [OF a b] a b show ?thesis by simp
qed

end
